theory Spec2Isabelle
  imports Complex_Main "HOL-Library.Word" "HOL-Library.Sublist"
begin

unbundle bit_operations_syntax

section \<open>Python values used by the serial log tests\<close>

text \<open>
  A Python \<^verbatim>\<open>str\<close> is a sequence of Unicode code points, a \<^verbatim>\<open>bytes\<close> object a
  sequence of octets. ASCII literals of the source are written with \<open>u\<close>; a character
  beyond ASCII is spliced in by its code point.
\<close>

type_synonym pystr = "nat list"
type_synonym byte = "8 word"

definition u :: "string \<Rightarrow> pystr" where
  "u s = map of_char s"

text \<open>\<^verbatim>\<open>a in b\<close> on two strings: \<open>a\<close> occurs in \<open>b\<close> as a contiguous run.\<close>

definition py_in :: "pystr \<Rightarrow> pystr \<Rightarrow> bool" where
  "py_in a b = sublist a b"

text \<open>
  The exceptions the tests can meet. An \<^verbatim>\<open>AssertionError\<close> carries what identifies the
  assertion that raised it: the member looked for, or the message given to the assertion.
\<close>

datatype py_exception = UnicodeDecodeError | ValueError | AssertionError pystr | SkipTest

section \<open>\<^verbatim>\<open>bytes.decode('utf-8', errors=...)\<close>\<close>

text \<open>
  The decoder of the interpreter, one code point at a time. An error is an invalid start
  byte (one byte), an invalid continuation byte (the bytes before the offending one) or
  an unexpected end of data (everything that is left). With \<open>Strict\<close> the error is raised;
  with \<open>Ignore\<close> the bytes of the error are skipped and decoding resumes behind them.
\<close>

datatype errors = Strict | Ignore

definition is_cont :: "byte \<Rightarrow> bool" where
  "is_cont c = (0x80 \<le> c \<and> c \<le> 0xBF)"

definition second3 :: "byte \<Rightarrow> byte \<Rightarrow> bool" where
  "second3 b c = (is_cont c \<and> \<not> (if c < 0xA0 then b = 0xE0 else b = 0xED))"

definition second4 :: "byte \<Rightarrow> byte \<Rightarrow> bool" where
  "second4 b c = (is_cont c \<and> \<not> (if c < 0x90 then b = 0xF0 else b = 0xF4))"

definition cp2 :: "byte \<Rightarrow> byte \<Rightarrow> nat" where
  "cp2 b c = unat (b AND 0x1F) * 64 + unat (c AND 0x3F)"

definition cp3 :: "byte \<Rightarrow> byte \<Rightarrow> byte \<Rightarrow> nat" where
  "cp3 b c d = unat (b AND 0x0F) * 4096 + unat (c AND 0x3F) * 64 + unat (d AND 0x3F)"

definition cp4 :: "byte \<Rightarrow> byte \<Rightarrow> byte \<Rightarrow> byte \<Rightarrow> nat" where
  "cp4 b c d e =
     unat (b AND 0x07) * 262144 + unat (c AND 0x3F) * 4096 + unat (d AND 0x3F) * 64
       + unat (e AND 0x3F)"

fun on_error :: "errors \<Rightarrow> py_exception + pystr \<Rightarrow> py_exception + pystr" where
  "on_error Strict k = Inl UnicodeDecodeError"
| "on_error Ignore k = k"

fun emit :: "nat \<Rightarrow> py_exception + pystr \<Rightarrow> py_exception + pystr" where
  "emit cp (Inl e) = Inl e"
| "emit cp (Inr s) = Inr (cp # s)"

fun utf8_decode :: "errors \<Rightarrow> byte list \<Rightarrow> py_exception + pystr" where
  "utf8_decode h [] = Inr []"
| "utf8_decode h (b # bs) =
    (if b < 0x80 then emit (unat b) (utf8_decode h bs)
     else if b < 0xC2 then on_error h (utf8_decode h bs)
     else if b < 0xE0 then
       (case bs of
          [] \<Rightarrow> on_error h (Inr [])
        | c # cs \<Rightarrow>
            if is_cont c then emit (cp2 b c) (utf8_decode h cs)
            else on_error h (utf8_decode h (c # cs)))
     else if b < 0xF0 then
       (case bs of
          [] \<Rightarrow> on_error h (Inr [])
        | c # cs \<Rightarrow>
            if \<not> second3 b c then on_error h (utf8_decode h (c # cs))
            else
              (case cs of
                 [] \<Rightarrow> on_error h (Inr [])
               | d # ds \<Rightarrow>
                   if is_cont d then emit (cp3 b c d) (utf8_decode h ds)
                   else on_error h (utf8_decode h (d # ds))))
     else if b < 0xF5 then
       (case bs of
          [] \<Rightarrow> on_error h (Inr [])
        | c # cs \<Rightarrow>
            if \<not> second4 b c then on_error h (utf8_decode h (c # cs))
            else
              (case cs of
                 [] \<Rightarrow> on_error h (Inr [])
               | d # ds \<Rightarrow>
                   if \<not> is_cont d then on_error h (utf8_decode h (d # ds))
                   else
                     (case ds of
                        [] \<Rightarrow> on_error h (Inr [])
                      | e # es \<Rightarrow>
                          if is_cont e then emit (cp4 b c d e) (utf8_decode h es)
                          else on_error h (utf8_decode h (e # es)))))
     else on_error h (utf8_decode h bs))"

section \<open>\<^verbatim>\<open>read_serial_until_pattern\<close>\<close>

text \<open>
  What the loop observes of the outside world. The first call of \<^verbatim>\<open>time.time()\<close> gives
  \<open>start_time\<close>. Iteration \<open>i\<close> of the \<^verbatim>\<open>while\<close> loop reads the clock (\<open>now\<close>) for its
  condition and then asks the serial port what is waiting (\<open>pending\<close>);
  \<^verbatim>\<open>in_waiting\<close> is the number of these bytes, and \<^verbatim>\<open>read(in_waiting)\<close> takes them all.
  Clock readings are idealised as real numbers. A port that fails while it is read and a
  pattern that does not compile raise exceptions of the libraries; they are not part of
  this model.
\<close>

record poll =
  now :: real
  pending :: "byte list"

text \<open>
  The function has two \<^verbatim>\<open>return buffer\<close> statements: inside the loop, after a successful
  search (\<open>Found\<close>), and behind the loop, once the condition fails (\<open>TimedOut\<close>). The loop
  records which one it took; the caller of the Python function gets the buffer only.
  \<^verbatim>\<open>re.search(pattern, buffer, re.MULTILINE)\<close> is the parameter \<open>re_search\<close>: it gives a
  match object or \<^verbatim>\<open>None\<close>. \<open>None\<close> as the value of the loop means that it never returns.
\<close>

datatype exit = Found | TimedOut

datatype outcome = Raised py_exception | Returned exit pystr

partial_function (option) poll_loop ::
  "('p \<Rightarrow> pystr \<Rightarrow> 'm option) \<Rightarrow> 'p \<Rightarrow> real \<Rightarrow> real \<Rightarrow> (nat \<Rightarrow> poll) \<Rightarrow> nat \<Rightarrow> pystr
    \<Rightarrow> outcome option"
where
  "poll_loop re_search pattern timeout start_time env i buffer =
    (if now (env i) - start_time < timeout then
       (if length (pending (env i)) \<noteq> 0 then
          (case utf8_decode Ignore (pending (env i)) of
             Inl e \<Rightarrow> Some (Raised e)
           | Inr data \<Rightarrow>
               (if re_search pattern (buffer @ data) \<noteq> None
                then Some (Returned Found (buffer @ data))
                else poll_loop re_search pattern timeout start_time env (Suc i) (buffer @ data)))
        else poll_loop re_search pattern timeout start_time env (Suc i) buffer)
     else Some (Returned TimedOut buffer))"

fun returned :: "outcome \<Rightarrow> py_exception + pystr" where
  "returned (Raised e) = Inl e"
| "returned (Returned x buffer) = Inr buffer"

definition read_serial_until_pattern ::
  "('p \<Rightarrow> pystr \<Rightarrow> 'm option) \<Rightarrow> real \<Rightarrow> (nat \<Rightarrow> poll) \<Rightarrow> 'p \<Rightarrow> real
    \<Rightarrow> (py_exception + pystr) option"
where
  "read_serial_until_pattern re_search start_time env pattern timeout =
     map_option returned (poll_loop re_search pattern timeout start_time env 0 [])"

text \<open>The text of a chunk of bytes, and the buffer after the first \<open>n\<close> iterations.\<close>

definition decoded :: "byte list \<Rightarrow> pystr" where
  "decoded bs = (case utf8_decode Ignore bs of Inl e \<Rightarrow> [] | Inr s \<Rightarrow> s)"

definition buffer_after :: "(nat \<Rightarrow> poll) \<Rightarrow> nat \<Rightarrow> pystr" where
  "buffer_after env n = concat (map (\<lambda>i. decoded (pending (env i))) [0..<n])"

definition expired :: "real \<Rightarrow> real \<Rightarrow> poll \<Rightarrow> bool" where
  "expired timeout start_time p = (\<not> now p - start_time < timeout)"

definition hit :: "('p \<Rightarrow> pystr \<Rightarrow> 'm option) \<Rightarrow> 'p \<Rightarrow> (nat \<Rightarrow> poll) \<Rightarrow> nat \<Rightarrow> bool" where
  "hit re_search pattern env i =
     (pending (env i) \<noteq> [] \<and> re_search pattern (buffer_after env (Suc i)) \<noteq> None)"

text \<open>
  Streams for worked examples: the given polls, one per iteration, and after them a
  silent port whose clock shows the number of the iteration.
\<close>

definition ascii_bytes :: "string \<Rightarrow> byte list" where
  "ascii_bytes s = map of_char s"

definition stream :: "(real \<times> byte list) list \<Rightarrow> nat \<Rightarrow> poll" where
  "stream ps i =
     (if i < length ps then \<lparr>now = fst (ps ! i), pending = snd (ps ! i)\<rparr>
      else \<lparr>now = real i, pending = []\<rparr>)"

definition chatter :: "nat \<Rightarrow> poll" where
  "chatter i = \<lparr>now = real i, pending = ascii_bytes ''x''\<rparr>"

definition two_chunks :: "nat \<Rightarrow> poll" where
  "two_chunks = stream [(1, ascii_bytes ''abc''), (2, []), (3, ascii_bytes ''def'')]"

definition split_word :: "nat \<Rightarrow> poll" where
  "split_word = stream [(1, ascii_bytes ''Comm''), (2, []), (3, ascii_bytes ''unity Edition'')]"

definition boot_ok :: "nat \<Rightarrow> poll" where
  "boot_ok = stream [(1 / 2, ascii_bytes ''boot OK'')]"

definition flood :: "nat \<Rightarrow> poll" where
  "flood = stream [(1, ascii_bytes ''0123456789''), (2, ascii_bytes ''0123456789''),
                   (3, ascii_bytes ''0123456789'')]"

definition garbled :: "byte list" where
  "garbled = [0x4F, 0x4B, 0xFF, 0xC3, 0xA9, 0xE2, 0x82]"

definition clean :: "byte list" where
  "clean = [0x4F, 0x4B, 0xC3, 0xA9]"

definition noise :: "nat \<Rightarrow> poll" where
  "noise = stream [(1, [0xFF])]"

definition garbled_stream :: "nat \<Rightarrow> poll" where
  "garbled_stream = stream [(1, garbled)]"

section \<open>\<^verbatim>\<open>re.search\<close> on the patterns of the tests\<close>

text \<open>
  A backtracking matcher for the constructs the patterns of the tests are written in:
  literal characters, character classes, \<^verbatim>\<open>^\<close> and \<^verbatim>\<open>$\<close>, sequence, \<^verbatim>\<open>|\<close>, \<^verbatim>\<open>?\<close>, \<^verbatim>\<open>+\<close>
  (both greedy) and numbered groups. \<open>rx_match\<close> lists the ways a pattern matches at the
  current position, the one the library prefers first. The flag is
  \<^verbatim>\<open>re.MULTILINE\<close>. The number bounds the iterations of \<^verbatim>\<open>+\<close>; every iteration after the
  first must consume a character, so the length of the text is enough.
\<close>

datatype rx =
    Eps
  | Chr nat
  | Cls "nat \<Rightarrow> bool"
  | Bol
  | Eol
  | Cat rx rx
  | Alt rx rx
  | Opt rx
  | Plus rx
  | Grp nat rx

record mstate =
  prev :: "nat option"
  rest :: pystr
  caps :: "(nat \<times> pystr) list"

definition consumed :: "mstate \<Rightarrow> mstate \<Rightarrow> pystr" where
  "consumed st st' = take (length (rest st) - length (rest st')) (rest st)"

fun rx_match :: "bool \<Rightarrow> nat \<Rightarrow> rx \<Rightarrow> mstate \<Rightarrow> mstate list" where
  "rx_match ml n Eps st = [st]"
| "rx_match ml n (Chr c) st =
     (case rest st of
        [] \<Rightarrow> []
      | x # xs \<Rightarrow> if x = c then [st\<lparr>prev := Some x, rest := xs\<rparr>] else [])"
| "rx_match ml n (Cls f) st =
     (case rest st of
        [] \<Rightarrow> []
      | x # xs \<Rightarrow> if f x then [st\<lparr>prev := Some x, rest := xs\<rparr>] else [])"
| "rx_match ml n Bol st =
     (if prev st = None \<or> (ml \<and> prev st = Some 10) then [st] else [])"
| "rx_match ml n Eol st =
     (if rest st = [] \<or> (ml \<and> take 1 (rest st) = [10]) \<or> (\<not> ml \<and> rest st = [10])
      then [st] else [])"
| "rx_match ml n (Cat r1 r2) st = concat (map (rx_match ml n r2) (rx_match ml n r1 st))"
| "rx_match ml n (Alt r1 r2) st = rx_match ml n r1 st @ rx_match ml n r2 st"
| "rx_match ml n (Opt r) st = rx_match ml n r st @ [st]"
| "rx_match ml 0 (Plus r) st = rx_match ml 0 r st"
| "rx_match ml (Suc n) (Plus r) st =
     concat (map (\<lambda>st'. (if length (rest st') < length (rest st)
                          then rx_match ml n (Plus r) st' else []) @ [st'])
                 (rx_match ml (Suc n) r st))"
| "rx_match ml n (Grp k r) st =
     map (\<lambda>st'. st'\<lparr>caps := (k, consumed st st') # caps st'\<rparr>) (rx_match ml n r st)"

text \<open>
  A match object: where the match starts, the matched text (\<^verbatim>\<open>group(0)\<close>) and the groups.
  \<open>scan\<close> tries the start positions from left to right, as \<^verbatim>\<open>re.search\<close> does.
\<close>

record match =
  m_start :: nat
  m_group0 :: pystr
  m_caps :: "(nat \<times> pystr) list"

fun scan :: "bool \<Rightarrow> rx \<Rightarrow> nat \<Rightarrow> nat option \<Rightarrow> pystr \<Rightarrow> nat \<Rightarrow> match option" where
  "scan ml r n p s pos =
     (case rx_match ml n r \<lparr>prev = p, rest = s, caps = []\<rparr> of
        st' # _ \<Rightarrow>
          Some \<lparr>m_start = pos, m_group0 = take (length s - length (rest st')) s,
                m_caps = caps st'\<rparr>
      | [] \<Rightarrow> (case s of [] \<Rightarrow> None | x # xs \<Rightarrow> scan ml r n (Some x) xs (Suc pos)))"

definition rx_search :: "bool \<Rightarrow> rx \<Rightarrow> pystr \<Rightarrow> match option" where
  "rx_search ml r s = scan ml r (length s) None s 0"

definition group :: "match \<Rightarrow> nat \<Rightarrow> pystr option" where
  "group m k = (if k = 0 then Some (m_group0 m) else map_of (m_caps m) k)"

text \<open>A pattern without special characters.\<close>

fun lit :: "pystr \<Rightarrow> rx" where
  "lit [] = Eps"
| "lit [c] = Chr c"
| "lit (c # cs) = Cat (Chr c) (lit cs)"

text \<open>
  \<^verbatim>\<open>T=([\d.-]+)\<degree>C, H=([\d.-]+)%\<close>. Which characters \<^verbatim>\<open>\d\<close> matches is a table of the
  interpreter's Unicode database; it is the parameter.
\<close>

definition reading_rx :: "(nat \<Rightarrow> bool) \<Rightarrow> rx" where
  "reading_rx is_digit =
     Cat (lit (u ''T=''))
    (Cat (Grp 1 (Plus (Cls (\<lambda>c. is_digit c \<or> c = 46 \<or> c = 45))))
    (Cat (lit ([176] @ u ''C, H=''))
    (Cat (Grp 2 (Plus (Cls (\<lambda>c. is_digit c \<or> c = 46 \<or> c = 45))))
         (Chr 37))))"

definition ascii_digit :: "nat \<Rightarrow> bool" where
  "ascii_digit c = (48 \<le> c \<and> c \<le> 57)"

definition groups2 :: "match \<Rightarrow> pystr \<times> pystr" where
  "groups2 m = (case (group m 1, group m 2) of
                  (Some a, Some b) \<Rightarrow> (a, b) | _ \<Rightarrow> ([], []))"

definition search_reading_ascii :: "pystr \<Rightarrow> (pystr \<times> pystr) option" where
  "search_reading_ascii s = map_option groups2 (rx_search False (reading_rx ascii_digit) s)"

text \<open>
  \<^verbatim>\<open>float(s)\<close> on the strings that the groups above can hold when the digits are ASCII:
  an optional minus sign, digits, at most one point. The value is the decimal read
  exactly, which is what the interpreter gives when that value is a binary fraction.
\<close>

definition digits_value :: "pystr \<Rightarrow> nat" where
  "digits_value ds = foldl (\<lambda>acc c. 10 * acc + (c - 48)) 0 ds"

definition unsigned_decimal :: "pystr \<Rightarrow> py_exception + real" where
  "unsigned_decimal s =
     (let ip = takeWhile (\<lambda>c. c \<noteq> 46) s;
          fp = drop 1 (dropWhile (\<lambda>c. c \<noteq> 46) s)
      in if list_all ascii_digit ip \<and> list_all ascii_digit fp \<and> (ip \<noteq> [] \<or> fp \<noteq> [])
         then Inr (real (digits_value ip) + real (digits_value fp) / 10 ^ length fp)
         else Inl ValueError)"

definition float_of_decimal :: "pystr \<Rightarrow> py_exception + real" where
  "float_of_decimal s =
     (case s of
        [] \<Rightarrow> Inl ValueError
      | c # cs \<Rightarrow>
          if c = 45 then
            (case unsigned_decimal cs of Inl e \<Rightarrow> Inl e | Inr x \<Rightarrow> Inr (- x))
          else unsigned_decimal s)"

section \<open>The assertions of \<^verbatim>\<open>unittest.TestCase\<close>\<close>

text \<open>
  An assertion returns normally or raises \<^verbatim>\<open>AssertionError\<close>. A sequence of statements
  stops at the first one that raises.
\<close>

definition assertIn :: "pystr \<Rightarrow> pystr \<Rightarrow> py_exception + unit" where
  "assertIn member container =
     (if py_in member container then Inr () else Inl (AssertionError member))"

definition assertTrue :: "bool \<Rightarrow> pystr \<Rightarrow> py_exception + unit" where
  "assertTrue expr msg = (if expr then Inr () else Inl (AssertionError msg))"

definition assertGreaterEqual :: "real \<Rightarrow> real \<Rightarrow> pystr \<Rightarrow> py_exception + unit" where
  "assertGreaterEqual a b msg = (if a \<ge> b then Inr () else Inl (AssertionError msg))"

definition assertLessEqual :: "real \<Rightarrow> real \<Rightarrow> pystr \<Rightarrow> py_exception + unit" where
  "assertLessEqual a b msg = (if a \<le> b then Inr () else Inl (AssertionError msg))"

fun statements :: "(py_exception + unit) list \<Rightarrow> py_exception + unit" where
  "statements [] = Inr ()"
| "statements (Inl e # ss) = Inl e"
| "statements (Inr x # ss) = statements ss"

section \<open>The test methods\<close>

text \<open>
  Each test method is a function of the log that \<^verbatim>\<open>read_serial_until_pattern\<close> returned
  to it; toggling DTR, sleeping and printing leave no trace in the verdict.
\<close>

subsection \<open>\<^verbatim>\<open>test_community_boot_sequence\<close>\<close>

definition boot_messages :: "pystr list" where
  "boot_messages =
     [u ''D'' @ [233] @ u ''marrage SecureIoT-VIF Community Edition'',
      u ''Crypto de base initialis'' @ [233],
      u ''V'' @ [233] @ u ''rification int'' @ [233] @ u ''grit'' @ [233] @ u '' initiale r''
        @ [233] @ u ''ussie'',
      u ''Gestionnaire de capteurs Community initialis'' @ [233],
      u ''Community Edition Op'' @ [233] @ u ''rationnel'']"

definition test_community_boot_sequence :: "pystr \<Rightarrow> py_exception + unit" where
  "test_community_boot_sequence boot_log =
     statements (map (\<lambda>member. assertIn member boot_log) boot_messages)"

text \<open>Logs for worked examples: all five messages, the first two, all but the first.\<close>

definition complete_boot_log :: pystr where
  "complete_boot_log = concat (map (\<lambda>m. m @ [10]) boot_messages)"

definition partial_boot_log :: pystr where
  "partial_boot_log = concat (map (\<lambda>m. m @ [10]) (take 2 boot_messages))"

definition later_boot_log :: pystr where
  "later_boot_log = concat (map (\<lambda>m. m @ [10]) (drop 1 boot_messages))"

subsection \<open>\<^verbatim>\<open>test_community_sensor_reading\<close>\<close>

text \<open>
  \<open>search_reading\<close> is \<^verbatim>\<open>re.search\<close> with the pattern of the readings, followed by
  \<^verbatim>\<open>groups()\<close>; \<open>py_float\<close> is \<^verbatim>\<open>float\<close>, with the value of the result as a real number.
\<close>

definition sensor_header :: pystr where
  "sensor_header = u ''Donn'' @ [233] @ u ''es capteur:''"

definition msg_temperature :: pystr where
  "msg_temperature = u ''Temp'' @ [233] @ u ''rature dans la plage DHT22''"

definition msg_humidity :: pystr where
  "msg_humidity = u ''Humidit'' @ [233] @ u '' dans la plage DHT22''"

definition test_community_sensor_reading ::
  "(pystr \<Rightarrow> (pystr \<times> pystr) option) \<Rightarrow> (pystr \<Rightarrow> py_exception + real) \<Rightarrow> pystr
    \<Rightarrow> py_exception + unit"
where
  "test_community_sensor_reading search_reading py_float sensor_log =
     (case assertIn sensor_header sensor_log of
        Inl e \<Rightarrow> Inl e
      | Inr _ \<Rightarrow>
          (case search_reading sensor_log of
             None \<Rightarrow> Inr ()
           | Some (temp, humidity) \<Rightarrow>
               (case py_float temp of
                  Inl e \<Rightarrow> Inl e
                | Inr temp \<Rightarrow>
                    (case py_float humidity of
                       Inl e \<Rightarrow> Inl e
                     | Inr humidity \<Rightarrow>
                         statements
                           [assertGreaterEqual temp (- 40) msg_temperature,
                            assertLessEqual temp 80 msg_temperature,
                            assertGreaterEqual humidity 0 msg_humidity,
                            assertLessEqual humidity 100 msg_humidity]))))"

text \<open>Logs for worked examples: a reading in range, one too hot, and none at all.\<close>

definition reading_ok :: pystr where
  "reading_ok = sensor_header @ u '' T=23.5'' @ [176] @ u ''C, H=45.0%''"

definition reading_hot :: pystr where
  "reading_hot = sensor_header @ u '' T=150.0'' @ [176] @ u ''C, H=45.0%''"

definition reading_absent :: pystr where
  "reading_absent = sensor_header @ u '' aucune mesure''"

subsection \<open>\<^verbatim>\<open>test_community_no_enterprise_features\<close>\<close>

text \<open>\<open>lower\<close> is \<^verbatim>\<open>str.lower\<close>, whose tables belong to the interpreter.\<close>

definition enterprise_features :: "pystr list" where
  "enterprise_features =
     [u ''temps r'' @ [233] @ u ''el'',
      u ''Hardware Security Module'',
      u ''TRNG'',
      u ''attestation continue'',
      u ''M'' @ u ''L adaptatif'',
      u ''eFuse'',
      u ''Secure Boot v2'',
      u ''Flash Encryption'']"

definition has_qualifier :: "(pystr \<Rightarrow> pystr) \<Rightarrow> pystr \<Rightarrow> bool" where
  "has_qualifier lower log_buffer =
     (py_in (u ''non disponible'') log_buffer \<or> py_in (u ''Enterprise'') log_buffer
      \<or> py_in (u ''pas de'') (lower log_buffer))"

definition msg_feature :: "pystr \<Rightarrow> pystr" where
  "msg_feature feature =
     u ''Fonctionnalit'' @ [233] @ u '' Enterprise '' @ [39] @ feature @ [39] @ u '' pr''
       @ [233] @ u ''sente en Community''"

fun check_features :: "(pystr \<Rightarrow> pystr) \<Rightarrow> pystr list \<Rightarrow> pystr \<Rightarrow> py_exception + unit" where
  "check_features lower [] log_buffer = Inr ()"
| "check_features lower (feature # features) log_buffer =
     (if py_in feature log_buffer then
        (case assertTrue (has_qualifier lower log_buffer) (msg_feature feature) of
           Inl e \<Rightarrow> Inl e
         | Inr _ \<Rightarrow> check_features lower features log_buffer)
      else check_features lower features log_buffer)"

definition test_community_no_enterprise_features ::
  "(pystr \<Rightarrow> pystr) \<Rightarrow> pystr \<Rightarrow> py_exception + unit"
where
  "test_community_no_enterprise_features lower log_buffer =
     check_features lower enterprise_features log_buffer"

definition ascii_lower :: "pystr \<Rightarrow> pystr" where
  "ascii_lower s = map (\<lambda>c. if 65 \<le> c \<and> c \<le> 90 then c + 32 else c) s"





definition near_log :: pystr where
  "near_log = u ''TRNG non disponible'' @ [10]"


section \<open>\<^verbatim>\<open>run_community_tests\<close>\<close>

text \<open>
  How \<^verbatim>\<open>unittest\<close> files one test: \<^verbatim>\<open>setUp\<close> skips the test when the serial port cannot be
  opened; an \<^verbatim>\<open>AssertionError\<close> is a failure, any other exception an error.
\<close>

datatype status = Success | Failure | Error | Skipped

definition setUp :: "bool \<Rightarrow> py_exception + unit" where
  "setUp port_available = (if port_available then Inr () else Inl SkipTest)"

fun classify :: "py_exception \<Rightarrow> status" where
  "classify SkipTest = Skipped"
| "classify (AssertionError m) = Failure"
| "classify e = Error"

definition run_test :: "bool \<Rightarrow> (py_exception + unit) \<Rightarrow> status" where
  "run_test port_available body =
     (case setUp port_available of
        Inl e \<Rightarrow> classify e
      | Inr _ \<Rightarrow> (case body of Inl e \<Rightarrow> classify e | Inr _ \<Rightarrow> Success))"

text \<open>
  A test of the suite, as the runner meets it: the name of the method, whether \<^verbatim>\<open>setUp\<close>
  can open the port, and what the body of the method does.
\<close>

type_synonym test_case = "string \<times> bool \<times> (py_exception + unit)"

definition status_of :: "test_case \<Rightarrow> status" where
  "status_of t = (case t of (name, port_available, body) \<Rightarrow> run_test port_available body)"

text \<open>
  The \<^verbatim>\<open>TestResult\<close> of the run. No test of the class is decorated as an expected
  failure, so the list of unexpected successes, which \<^verbatim>\<open>wasSuccessful\<close> also looks at,
  stays empty and is left out.
\<close>

record test_result =
  testsRun :: nat
  failures :: "string list"
  errors :: "string list"
  skipped :: "string list"

definition empty_result :: test_result where
  "empty_result = \<lparr>testsRun = 0, failures = [], errors = [], skipped = []\<rparr>"

fun add_status :: "test_result \<Rightarrow> string \<Rightarrow> status \<Rightarrow> test_result" where
  "add_status r name Success = r\<lparr>testsRun := testsRun r + 1\<rparr>"
| "add_status r name Failure = r\<lparr>testsRun := testsRun r + 1, failures := failures r @ [name]\<rparr>"
| "add_status r name Error = r\<lparr>testsRun := testsRun r + 1, errors := errors r @ [name]\<rparr>"
| "add_status r name Skipped = r\<lparr>testsRun := testsRun r + 1, skipped := skipped r @ [name]\<rparr>"

definition record_test :: "test_result \<Rightarrow> test_case \<Rightarrow> test_result" where
  "record_test r t = add_status r (fst t) (status_of t)"

definition runner_run :: "test_case list \<Rightarrow> test_result" where
  "runner_run suite = foldl record_test empty_result suite"

definition wasSuccessful :: "test_result \<Rightarrow> bool" where
  "wasSuccessful r = (length (failures r) = 0 \<and> length (errors r) = 0)"

text \<open>
  The last line of the runner's report: after \<^verbatim>\<open>OK\<close> or \<^verbatim>\<open>FAILED\<close> it lists, in
  parentheses, the counts that are not zero.
\<close>

definition runner_infos :: "test_result \<Rightarrow> (string \<times> nat) list" where
  "runner_infos r =
     (if \<not> wasSuccessful r then
        (if length (failures r) \<noteq> 0 then [(''failures'', length (failures r))] else [])
        @ (if length (errors r) \<noteq> 0 then [(''errors'', length (errors r))] else [])
      else [])
     @ (if length (skipped r) \<noteq> 0 then [(''skipped'', length (skipped r))] else [])"

text \<open>
  The summary that the script prints itself, below the runner's report: two lines of
  success, or the numbers of failures and errors and then each of them.
\<close>

datatype summary = AllPassed | Counts nat nat "string list"

definition script_summary :: "test_result \<Rightarrow> summary" where
  "script_summary r =
     (if wasSuccessful r then AllPassed
      else Counts (length (failures r)) (length (errors r)) (failures r @ errors r))"

definition run_community_tests :: "test_case list \<Rightarrow> bool" where
  "run_community_tests suite = wasSuccessful (runner_run suite)"

text \<open>\<^verbatim>\<open>exit(0 if success else 1)\<close>\<close>

definition main_exit :: "test_case list \<Rightarrow> int" where
  "main_exit suite = (if run_community_tests suite then 0 else 1)"

text \<open>
  Suites for worked examples: the eight tests with no device attached, and three tests
  with a device whose boot log is empty.
\<close>

definition suite_no_device :: "test_case list" where
  "suite_no_device =
     map (\<lambda>name. (name, False, Inr ()))
       [''test_community_anomaly_detection_basic'', ''test_community_boot_sequence'',
        ''test_community_crypto_basic'', ''test_community_educational_messages'',
        ''test_community_integrity_basic'', ''test_community_no_enterprise_features'',
        ''test_community_performance_basic'', ''test_community_sensor_reading'']"

definition suite_with_failure :: "test_case list" where
  "suite_with_failure =
     [(''test_community_boot_sequence'', True, test_community_boot_sequence []),
      (''test_community_crypto_basic'', False, Inr ()),
      (''test_community_no_enterprise_features'', True,
         test_community_no_enterprise_features ascii_lower near_log)]"

section \<open>Properties of the decoder\<close>

lemmas utf8_decode_Cons = utf8_decode.simps(2)

declare utf8_decode.simps(2) [simp del]

text \<open>
  One step of the decoder, seen from outside: it keeps a complete sequence and goes on
  behind it, or it reports an error and resumes at a later byte, or the data ends inside
  a sequence.
\<close>

lemma utf8_decode_view:
  obtains
    (keep) cp pre rest where "b # bs = pre @ rest" "pre \<noteq> []"
      "\<And>h w. utf8_decode h (pre @ w) = emit cp (utf8_decode h w)"
  | (skip) pre rest where "b # bs = pre @ rest" "pre \<noteq> []"
      "\<And>h. utf8_decode h (b # bs) = on_error h (utf8_decode h rest)"
  | (trunc) "\<And>h. utf8_decode h (b # bs) = on_error h (Inr [])"
proof -
  note U = utf8_decode_Cons [of _ b]
  consider (c1) "b < 0x80" | (c0) "\<not> b < 0x80" "b < 0xC2"
    | (c2) "\<not> b < 0x80" "\<not> b < 0xC2" "b < 0xE0"
    | (c3) "\<not> b < 0x80" "\<not> b < 0xC2" "\<not> b < 0xE0" "b < 0xF0"
    | (c4) "\<not> b < 0x80" "\<not> b < 0xC2" "\<not> b < 0xE0" "\<not> b < 0xF0" "b < 0xF5"
    | (c5) "\<not> b < 0x80" "\<not> b < 0xC2" "\<not> b < 0xE0" "\<not> b < 0xF0" "\<not> b < 0xF5"
    by blast
  then show thesis
  proof cases
    case c1
    then show ?thesis by (intro keep [of "[b]" bs "unat b"]) (simp_all add: U)
  next
    case c0
    then show ?thesis by (intro skip [of "[b]" bs]) (simp_all add: U)
  next
    case c5
    then show ?thesis by (intro skip [of "[b]" bs]) (simp_all add: U)
  next
    case c2
    show ?thesis
    proof (cases bs)
      case Nil
      with c2 show ?thesis by (intro trunc) (simp add: U)
    next
      case (Cons c cs)
      show ?thesis
      proof (cases "is_cont c")
        case True
        with c2 Cons show ?thesis by (intro keep [of "[b, c]" cs "cp2 b c"]) (simp_all add: U)
      next
        case False
        with c2 Cons show ?thesis by (intro skip [of "[b]" bs]) (simp_all add: U)
      qed
    qed
  next
    case c3
    show ?thesis
    proof (cases bs)
      case Nil
      with c3 show ?thesis by (intro trunc) (simp add: U)
    next
      case (Cons c cs)
      note bs = Cons
      show ?thesis
      proof (cases "second3 b c")
        case False
        with c3 bs show ?thesis by (intro skip [of "[b]" bs]) (simp_all add: U)
      next
        case True
        note s3 = True
        show ?thesis
        proof (cases cs)
          case Nil
          with c3 bs s3 show ?thesis by (intro trunc) (simp add: U)
        next
          case (Cons d ds)
          show ?thesis
          proof (cases "is_cont d")
            case True
            with c3 bs s3 Cons show ?thesis
              by (intro keep [of "[b, c, d]" ds "cp3 b c d"]) (simp_all add: U)
          next
            case False
            with c3 bs s3 Cons show ?thesis
              by (intro skip [of "[b, c]" cs]) (simp_all add: U)
          qed
        qed
      qed
    qed
  next
    case c4
    show ?thesis
    proof (cases bs)
      case Nil
      with c4 show ?thesis by (intro trunc) (simp add: U)
    next
      case (Cons c cs)
      note bs = Cons
      show ?thesis
      proof (cases "second4 b c")
        case False
        with c4 bs show ?thesis by (intro skip [of "[b]" bs]) (simp_all add: U)
      next
        case True
        note s4 = True
        show ?thesis
        proof (cases cs)
          case Nil
          with c4 bs s4 show ?thesis by (intro trunc) (simp add: U)
        next
          case (Cons d ds)
          note cs = Cons
          show ?thesis
          proof (cases "is_cont d")
            case False
            with c4 bs s4 cs show ?thesis
              by (intro skip [of "[b, c]" cs]) (simp_all add: U)
          next
            case True
            note cd = True
            show ?thesis
            proof (cases ds)
              case Nil
              with c4 bs s4 cs cd show ?thesis by (intro trunc) (simp add: U)
            next
              case (Cons e es)
              show ?thesis
              proof (cases "is_cont e")
                case True
                with c4 bs s4 cs cd Cons show ?thesis
                  by (intro keep [of "[b, c, d, e]" es "cp4 b c d e"]) (simp_all add: U)
              next
                case False
                with c4 bs s4 cs cd Cons show ?thesis
                  by (intro skip [of "[b, c, d]" ds]) (simp_all add: U)
              qed
            qed
          qed
        qed
      qed
    qed
  qed
qed

lemma emit_Inr_iff: "emit cp k = Inr s \<longleftrightarrow> (\<exists>t. k = Inr t \<and> s = cp # t)"
  by (cases k) auto

lemma utf8_ignore_total: "\<exists>s. utf8_decode Ignore bs = Inr s"
proof (induction bs rule: length_induct)
  case (1 bs)
  show ?case
  proof (cases bs)
    case Nil
    then show ?thesis by simp
  next
    case (Cons b bs')
    have IH: "\<And>ys. length ys < length bs \<Longrightarrow> \<exists>s. utf8_decode Ignore ys = Inr s"
      using 1 by blast
    show ?thesis
    proof (cases b bs' rule: utf8_decode_view)
      case (keep cp pre rest)
      with IH [of rest] Cons show ?thesis by (auto simp: emit_Inr_iff)
    next
      case (skip pre rest)
      with IH [of rest] Cons show ?thesis by auto
    next
      case trunc
      with Cons show ?thesis by simp
    qed
  qed
qed

lemma utf8_strict_ignore:
  "utf8_decode Strict bs = Inr s \<Longrightarrow> utf8_decode Ignore bs = Inr s"
proof (induction bs arbitrary: s rule: length_induct)
  case (1 bs)
  show ?case
  proof (cases bs)
    case Nil
    with 1 show ?thesis by simp
  next
    case (Cons b bs')
    have IH: "\<And>ys t. length ys < length bs \<Longrightarrow> utf8_decode Strict ys = Inr t
        \<Longrightarrow> utf8_decode Ignore ys = Inr t"
      using 1 by blast
    show ?thesis
    proof (cases b bs' rule: utf8_decode_view)
      case (keep cp pre rest)
      with IH [of rest] 1(2) Cons show ?thesis by (auto simp: emit_Inr_iff)
    next
      case (skip pre rest)
      with 1(2) Cons show ?thesis by auto
    next
      case trunc
      with 1(2) Cons show ?thesis by simp
    qed
  qed
qed

lemma utf8_ignore_subseq:
  "utf8_decode Ignore bs = Inr s \<Longrightarrow> \<exists>w. subseq w bs \<and> utf8_decode Strict w = Inr s"
proof (induction bs arbitrary: s rule: length_induct)
  case (1 bs)
  show ?case
  proof (cases bs)
    case Nil
    with 1 show ?thesis by auto
  next
    case (Cons b bs')
    have IH: "\<And>ys t. length ys < length bs \<Longrightarrow> utf8_decode Ignore ys = Inr t
        \<Longrightarrow> \<exists>w. subseq w ys \<and> utf8_decode Strict w = Inr t"
      using 1 by blast
    show ?thesis
    proof (cases b bs' rule: utf8_decode_view)
      case (keep cp pre rest)
      from keep 1(2) Cons obtain t where t: "utf8_decode Ignore rest = Inr t" "s = cp # t"
        by (auto simp: emit_Inr_iff)
      from keep Cons have "length rest < length bs" by (cases pre) auto
      from IH [OF this t(1)] obtain w where w: "subseq w rest" "utf8_decode Strict w = Inr t"
        by blast
      from w keep t Cons
      have "subseq (pre @ w) bs \<and> utf8_decode Strict (pre @ w) = Inr s"
        by (simp add: list_emb_append_mono)
      then show ?thesis by blast
    next
      case (skip pre rest)
      from skip 1(2) Cons have t: "utf8_decode Ignore rest = Inr s" by simp
      from skip Cons have "length rest < length bs" by (cases pre) auto
      from IH [OF this t] obtain w where w: "subseq w rest" "utf8_decode Strict w = Inr s"
        by blast
      from w(1) skip(1) Cons have "subseq w bs"
        by (metis list_emb_append2)
      with w show ?thesis by blast
    next
      case trunc
      with 1(2) Cons have "s = []" by simp
      then have "subseq [] bs \<and> utf8_decode Strict [] = Inr s" by simp
      then show ?thesis by blast
    qed
  qed
qed

text \<open>
  Each chunk is decoded on its own. A character whose bytes arrive in two reads is
  therefore lost: neither half is valid where it stands.
\<close>

lemma split_character_is_dropped:
  "decoded [0x4F, 0xC3, 0xA9, 0x4B] = [79, 233, 75]
   \<and> decoded [0x4F, 0xC3] @ decoded [0xA9, 0x4B] = [79, 75]"
  by code_simp

section \<open>Properties of the polling loop\<close>

lemma utf8_ignore_decoded: "utf8_decode Ignore bs = Inr (decoded bs)"
  using utf8_ignore_total [of bs] by (auto simp: decoded_def)

lemma decoded_Nil: "decoded [] = []"
  by (simp add: decoded_def)

lemma buffer_after_Suc:
  "buffer_after env (Suc n) = buffer_after env n @ decoded (pending (env n))"
  by (simp add: buffer_after_def)

lemma buffer_after_0: "buffer_after env 0 = []"
  by (simp add: buffer_after_def)

lemma poll_loop_step:
  assumes "\<not> expired timeout start_time (env k)" "\<not> hit re_search pattern env k"
  shows "poll_loop re_search pattern timeout start_time env k (buffer_after env k)
       = poll_loop re_search pattern timeout start_time env (Suc k) (buffer_after env (Suc k))"
proof (cases "pending (env k) = []")
  case True
  then show ?thesis
    using assms(1)
    by (subst poll_loop.simps) (simp add: expired_def buffer_after_Suc decoded_Nil)
next
  case False
  with assms(2) have "re_search pattern (buffer_after env k @ decoded (pending (env k))) = None"
    by (simp add: hit_def buffer_after_Suc)
  with False assms(1) show ?thesis
    by (subst poll_loop.simps) (simp add: expired_def buffer_after_Suc utf8_ignore_decoded)
qed

lemma poll_loop_quiet:
  assumes "\<forall>j<k. \<not> expired timeout start_time (env j) \<and> \<not> hit re_search pattern env j"
  shows "poll_loop re_search pattern timeout start_time env 0 []
       = poll_loop re_search pattern timeout start_time env k (buffer_after env k)"
  using assms
proof (induction k)
  case 0
  show ?case by (simp only: buffer_after_0)
next
  case (Suc k)
  from Suc.prems have "poll_loop re_search pattern timeout start_time env 0 []
       = poll_loop re_search pattern timeout start_time env k (buffer_after env k)"
    by (intro Suc.IH) simp
  also from Suc.prems have "\<dots> = poll_loop re_search pattern timeout start_time env (Suc k)
      (buffer_after env (Suc k))"
    by (intro poll_loop_step) simp_all
  finally show ?case .
qed

lemma poll_loop_timed_out:
  assumes "\<forall>j<k. \<not> expired timeout start_time (env j) \<and> \<not> hit re_search pattern env j"
    and "expired timeout start_time (env k)"
  shows "poll_loop re_search pattern timeout start_time env 0 []
       = Some (Returned TimedOut (buffer_after env k))"
proof -
  from assms(2)
  have "poll_loop re_search pattern timeout start_time env k (buffer_after env k)
      = Some (Returned TimedOut (buffer_after env k))"
    by (subst poll_loop.simps) (simp add: expired_def)
  with poll_loop_quiet [OF assms(1)] show ?thesis by simp
qed

lemma poll_loop_found:
  assumes "\<forall>j<k. \<not> expired timeout start_time (env j) \<and> \<not> hit re_search pattern env j"
    and "\<not> expired timeout start_time (env k)" and "hit re_search pattern env k"
  shows "poll_loop re_search pattern timeout start_time env 0 []
       = Some (Returned Found (buffer_after env (Suc k)))"
proof -
  from assms(2,3)
  have "poll_loop re_search pattern timeout start_time env k (buffer_after env k)
      = Some (Returned Found (buffer_after env (Suc k)))"
    by (subst poll_loop.simps)
      (simp add: expired_def hit_def buffer_after_Suc utf8_ignore_decoded)
  with poll_loop_quiet [OF assms(1)] show ?thesis by simp
qed

text \<open>Conversely, a run that returns took one of the two exits at some iteration.\<close>

lemma poll_loop_returns_from:
  assumes "poll_loop re_search pattern timeout start_time env i buffer = Some y"
  shows "buffer = buffer_after env i \<longrightarrow>
   (\<exists>k\<ge>i. (\<forall>j. i \<le> j \<and> j < k \<longrightarrow>
            \<not> expired timeout start_time (env j) \<and> \<not> hit re_search pattern env j)
          \<and> (expired timeout start_time (env k) \<and> y = Returned TimedOut (buffer_after env k)
             \<or> \<not> expired timeout start_time (env k) \<and> hit re_search pattern env k
               \<and> y = Returned Found (buffer_after env (Suc k))))"
proof (rule poll_loop.raw_induct [where P = "\<lambda>re_search pattern timeout start_time env i buffer y.
   buffer = buffer_after env i \<longrightarrow>
   (\<exists>k\<ge>i. (\<forall>j. i \<le> j \<and> j < k \<longrightarrow>
            \<not> expired timeout start_time (env j) \<and> \<not> hit re_search pattern env j)
          \<and> (expired timeout start_time (env k) \<and> y = Returned TimedOut (buffer_after env k)
             \<or> \<not> expired timeout start_time (env k) \<and> hit re_search pattern env k
               \<and> y = Returned Found (buffer_after env (Suc k))))", OF _ assms], goal_cases)
  case (1 poll_loop re_search pattern timeout start_time env i buffer y)
  let ?Q = "\<lambda>i k. \<forall>j. i \<le> j \<and> j < k \<longrightarrow>
            \<not> expired timeout start_time (env j) \<and> \<not> hit re_search pattern env j"
  let ?R = "\<lambda>k. expired timeout start_time (env k) \<and> y = Returned TimedOut (buffer_after env k)
             \<or> \<not> expired timeout start_time (env k) \<and> hit re_search pattern env k
               \<and> y = Returned Found (buffer_after env (Suc k))"
  show ?case
  proof
    assume b: "buffer = buffer_after env i"
    show "\<exists>k\<ge>i. ?Q i k \<and> ?R k"
    proof (cases "expired timeout start_time (env i)")
      case True
      with 1(2) b have "?Q i i \<and> ?R i" by (auto simp add: expired_def)
      then show ?thesis by blast
    next
      case False
      note ne = False
      show ?thesis
      proof (cases "hit re_search pattern env i")
        case True
        with ne 1(2) b have "?Q i i \<and> ?R i"
          by (auto simp add: expired_def hit_def buffer_after_Suc utf8_ignore_decoded)
        then show ?thesis by blast
      next
        case False
        have "poll_loop re_search pattern timeout start_time env (Suc i)
            (buffer_after env (Suc i)) = Some y"
        proof (cases "pending (env i) = []")
          case True
          with ne 1(2) b show ?thesis
            by (simp add: expired_def buffer_after_Suc decoded_Nil)
        next
          case False
          with \<open>\<not> hit re_search pattern env i\<close> ne 1(2) b show ?thesis
            by (simp add: expired_def hit_def buffer_after_Suc utf8_ignore_decoded)
        qed
        from 1(1) [OF this] obtain k where k: "Suc i \<le> k" "?Q (Suc i) k" "?R k"
          by blast
        from k(2) ne False have "?Q i k"
          by (metis Suc_leI le_neq_implies_less)
        with k(1,3) have "i \<le> k \<and> ?Q i k \<and> ?R k" by simp
        then show ?thesis by blast
      qed
    qed
  qed
qed

lemma poll_loop_returns:
  assumes "poll_loop re_search pattern timeout start_time env 0 [] = Some y"
  shows "\<exists>k. (\<forall>j<k. \<not> expired timeout start_time (env j) \<and> \<not> hit re_search pattern env j)
          \<and> (expired timeout start_time (env k) \<and> y = Returned TimedOut (buffer_after env k)
             \<or> \<not> expired timeout start_time (env k) \<and> hit re_search pattern env k
               \<and> y = Returned Found (buffer_after env (Suc k)))"
  using poll_loop_returns_from [OF assms] by (simp add: buffer_after_0)

lemma quiet_no_match:
  assumes "\<forall>j<k. \<not> hit re_search pattern env j" and "buffer_after env k \<noteq> []"
  shows "re_search pattern (buffer_after env k) = None"
  using assms
proof (induction k)
  case 0
  then show ?case by (simp add: buffer_after_0)
next
  case (Suc k)
  show ?case
  proof (cases "pending (env k) = []")
    case True
    then have eq: "buffer_after env (Suc k) = buffer_after env k"
      by (simp add: buffer_after_Suc decoded_Nil)
    with Suc.prems have "buffer_after env k \<noteq> []" by simp
    moreover from Suc.prems have "\<forall>j<k. \<not> hit re_search pattern env j" by simp
    ultimately show ?thesis using Suc.IH eq by simp
  next
    case False
    moreover from Suc.prems have "\<not> hit re_search pattern env k" by simp
    ultimately show ?thesis by (simp add: hit_def)
  qed
qed

lemma buffer_after_prefix: "m \<le> n \<Longrightarrow> prefix (buffer_after env m) (buffer_after env n)"
proof (induction n)
  case 0
  then show ?case by simp
next
  case (Suc n)
  show ?case
  proof (cases "m = Suc n")
    case True
    then show ?thesis by simp
  next
    case False
    with Suc have "prefix (buffer_after env m) (buffer_after env n)" by simp
    then show ?thesis by (simp add: buffer_after_Suc prefix_prefix)
  qed
qed

lemma length_buffer_after:
  "length (buffer_after env n) = (\<Sum>i<n. length (decoded (pending (env i))))"
  by (induction n) (simp_all add: buffer_after_0 buffer_after_Suc)

lemma poll_loop_never_raises:
  assumes "poll_loop re_search pattern timeout start_time env i buffer = Some y"
  shows "\<exists>x b. y = Returned x b"
proof (rule poll_loop.raw_induct [where P = "\<lambda>re_search pattern timeout start_time env i buffer y.
    \<exists>x b. y = Returned x b", OF _ assms], goal_cases)
  case (1 poll_loop re_search pattern timeout start_time env i buffer y)
  then show ?case
    by (auto simp: utf8_ignore_decoded split: if_splits)
qed

section \<open>Claims about the pattern wait\<close>

text \<open>
  C6. Suppose the deadline elapses at iteration \<open>k\<close> and not before, and at no earlier
  iteration did the search of the accumulated buffer succeed. Then the wait leaves by the
  \<^verbatim>\<open>return\<close> behind the loop, and what it returns is the whole buffer accumulated up to
  that moment: the text decoded from every chunk read before iteration \<open>k\<close>.
\<close>

theorem timed_out_returns_accumulated_buffer:
  assumes "\<forall>j<k. \<not> expired timeout start_time (env j)"
    and "expired timeout start_time (env k)"
    and "\<forall>j<k. \<not> hit re_search pattern env j"
  shows "poll_loop re_search pattern timeout start_time env 0 []
           = Some (Returned TimedOut (buffer_after env k))
       \<and> read_serial_until_pattern re_search start_time env pattern timeout
           = Some (Inr (buffer_after env k))"
proof -
  from assms(1,3)
  have "\<forall>j<k. \<not> expired timeout start_time (env j) \<and> \<not> hit re_search pattern env j"
    by simp
  from poll_loop_timed_out [OF this assms(2)] show ?thesis
    by (simp add: read_serial_until_pattern_def)
qed


theorem timed_out_returns_accumulated_buffer_witness:
  "list_all (\<lambda>j. \<not> expired 5 0 (two_chunks j)) [0..<5]
   \<and> expired 5 0 (two_chunks 5)
   \<and> list_all (\<lambda>j. \<not> hit (rx_search True) (lit (u ''xyz'')) two_chunks j) [0..<5]
   \<and> poll_loop (rx_search True) (lit (u ''xyz'')) 5 0 two_chunks 0 []
        = Some (Returned TimedOut (u ''abcdef''))
   \<and> read_serial_until_pattern (rx_search True) 0 two_chunks (lit (u ''xyz'')) 5
        = Some (Inr (u ''abcdef''))"
proof -
  have a: "list_all (\<lambda>j. \<not> expired 5 0 (two_chunks j)) [0..<5]" by code_simp
  have b: "expired 5 0 (two_chunks 5)" by code_simp
  have c: "list_all (\<lambda>j. \<not> hit (rx_search True) (lit (u ''xyz'')) two_chunks j) [0..<5]"
    by code_simp
  have d: "buffer_after two_chunks 5 = u ''abcdef''" by code_simp
  from a have a': "\<forall>j<5. \<not> expired 5 0 (two_chunks j)" by (simp add: list_all_iff)
  from c have c': "\<forall>j<5. \<not> hit (rx_search True) (lit (u ''xyz'')) two_chunks j"
    by (simp add: list_all_iff)
  from timed_out_returns_accumulated_buffer [OF a' b c'] a b c d show ?thesis by simp
qed

text \<open>
  C1, as amended. Let \<open>k\<close> be the first iteration at which the search succeeds, the
  deadline not having elapsed by then. The search is run on the whole accumulated buffer,
  and the wait returns that whole buffer (every chunk decoded so far), on which the
  pattern matches. It does not return the matched text: the counterexample has the pattern
  \<^verbatim>\<open>OK\<close> and a first chunk \<^verbatim>\<open>boot OK\<close>; the matched text is \<^verbatim>\<open>OK\<close>, the value returned is
  \<^verbatim>\<open>boot OK\<close>.
\<close>

theorem found_returns_accumulated_buffer:
  assumes "\<forall>j<k. \<not> expired timeout start_time (env j) \<and> \<not> hit re_search pattern env j"
    and "\<not> expired timeout start_time (env k)"
    and "hit re_search pattern env k"
  shows "poll_loop re_search pattern timeout start_time env 0 []
           = Some (Returned Found (buffer_after env (Suc k)))
       \<and> read_serial_until_pattern re_search start_time env pattern timeout
           = Some (Inr (buffer_after env (Suc k)))
       \<and> re_search pattern (buffer_after env (Suc k)) \<noteq> None"
  using poll_loop_found [OF assms] assms(3)
  by (simp add: read_serial_until_pattern_def hit_def)

theorem found_returns_accumulated_buffer_witness:
  "list_all (\<lambda>j. \<not> expired 10 0 (split_word j)
       \<and> \<not> hit (rx_search True) (lit (u ''Community'')) split_word j) [0..<2]
   \<and> \<not> expired 10 0 (split_word 2)
   \<and> hit (rx_search True) (lit (u ''Community'')) split_word 2
   \<and> rx_search True (lit (u ''Community'')) (u ''unity Edition'') = None
   \<and> poll_loop (rx_search True) (lit (u ''Community'')) 10 0 split_word 0 []
        = Some (Returned Found (u ''Community Edition''))
   \<and> read_serial_until_pattern (rx_search True) 0 split_word (lit (u ''Community'')) 10
        = Some (Inr (u ''Community Edition''))"
proof -
  have a: "list_all (\<lambda>j. \<not> expired 10 0 (split_word j)
       \<and> \<not> hit (rx_search True) (lit (u ''Community'')) split_word j) [0..<2]" by code_simp
  have b: "\<not> expired 10 0 (split_word 2)" by code_simp
  have c: "hit (rx_search True) (lit (u ''Community'')) split_word 2" by code_simp
  have d: "buffer_after split_word (Suc 2) = u ''Community Edition''" by code_simp
  have e: "rx_search True (lit (u ''Community'')) (u ''unity Edition'') = None" by code_simp
  from a have a': "\<forall>j<2. \<not> expired 10 0 (split_word j)
       \<and> \<not> hit (rx_search True) (lit (u ''Community'')) split_word j"
    by (simp add: list_all_iff)
  from found_returns_accumulated_buffer [OF a' b c] a b c d e show ?thesis by simp
qed

theorem found_returns_matched_text_counterexample:
  "read_serial_until_pattern (rx_search True) 0 boot_ok (lit (u ''OK'')) 10
     = Some (Inr (u ''boot OK''))
   \<and> map_option m_group0 (rx_search True (lit (u ''OK'')) (u ''boot OK'')) = Some (u ''OK'')
   \<and> u ''boot OK'' \<noteq> u ''OK''"
proof -
  have "hit (rx_search True) (lit (u ''OK'')) boot_ok 0" by code_simp
  moreover have "\<not> expired 10 0 (boot_ok 0)" by code_simp
  moreover have "buffer_after boot_ok (Suc 0) = u ''boot OK''" by code_simp
  ultimately have "read_serial_until_pattern (rx_search True) 0 boot_ok (lit (u ''OK'')) 10
     = Some (Inr (u ''boot OK''))"
    using poll_loop_found [of 0 10 0 boot_ok "rx_search True" "lit (u ''OK'')"]
    by (simp add: read_serial_until_pattern_def)
  moreover have "map_option m_group0 (rx_search True (lit (u ''OK'')) (u ''boot OK''))
      = Some (u ''OK'')" by code_simp
  moreover have "u ''boot OK'' \<noteq> u ''OK''" by (simp add: u_def)
  ultimately show ?thesis by simp
qed

text \<open>
  C7. If some clock reading shows the deadline elapsed (at iteration \<open>k\<close>), the wait
  returns, whatever the port delivers, and it has read nothing beyond the polls before
  \<open>k\<close>. The witness has a port that delivers data at every poll without a match, and a
  port that never delivers anything.
\<close>

theorem wait_returns_by_the_deadline:
  assumes "expired timeout start_time (env k)"
  shows "\<exists>n\<le>k. \<exists>x.
           poll_loop re_search pattern timeout start_time env 0 []
             = Some (Returned x (buffer_after env n))
         \<and> read_serial_until_pattern re_search start_time env pattern timeout
             = Some (Inr (buffer_after env n))"
proof -
  define stop where "stop i \<longleftrightarrow> expired timeout start_time (env i) \<or> hit re_search pattern env i"
    for i
  define k' where "k' = (LEAST i. stop i)"
  from assms have "stop k" by (simp add: stop_def)
  then have k': "stop k'" "k' \<le> k" and least: "\<And>j. j < k' \<Longrightarrow> \<not> stop j"
    unfolding k'_def by (auto intro: LeastI Least_le dest: not_less_Least)
  from least have quiet:
    "\<forall>j<k'. \<not> expired timeout start_time (env j) \<and> \<not> hit re_search pattern env j"
    by (simp add: stop_def)
  show ?thesis
  proof (cases "expired timeout start_time (env k')")
    case True
    from poll_loop_timed_out [OF quiet True] k'(2) show ?thesis
      by (auto simp: read_serial_until_pattern_def)
  next
    case False
    with k'(1) have h: "hit re_search pattern env k'" by (simp add: stop_def)
    from False assms have "k' \<noteq> k" by auto
    with k'(2) have "Suc k' \<le> k" by simp
    with poll_loop_found [OF quiet False h] show ?thesis
      by (auto simp: read_serial_until_pattern_def)
  qed
qed

lemma poll_loop_never_returns:
  assumes "\<forall>j. \<not> expired timeout start_time (env j) \<and> \<not> hit re_search pattern env j"
  shows "poll_loop re_search pattern timeout start_time env 0 [] = None"
proof (cases "poll_loop re_search pattern timeout start_time env 0 []")
  case None
  then show ?thesis .
next
  case (Some y)
  from poll_loop_returns [OF Some] assms show ?thesis by blast
qed

theorem wait_returns_by_the_deadline_witness:
  "expired 3 0 (chatter 3)
   \<and> list_all (\<lambda>j. rx_search True (lit (u ''OK'')) (buffer_after chatter j) = None) [0..<4]
   \<and> (\<exists>n\<le>3. \<exists>x.
         poll_loop (rx_search True) (lit (u ''OK'')) 3 0 chatter 0 []
           = Some (Returned x (buffer_after chatter n))
       \<and> read_serial_until_pattern (rx_search True) 0 chatter (lit (u ''OK'')) 3
           = Some (Inr (buffer_after chatter n)))
   \<and> expired 2 0 (stream [] 2)
   \<and> (\<exists>n\<le>2. \<exists>x.
         poll_loop (rx_search True) (lit (u ''OK'')) 2 0 (stream []) 0 []
           = Some (Returned x (buffer_after (stream []) n))
       \<and> read_serial_until_pattern (rx_search True) 0 (stream []) (lit (u ''OK'')) 2
           = Some (Inr (buffer_after (stream []) n)))"
proof -
  have a: "expired 3 0 (chatter 3)" by code_simp
  have b: "list_all (\<lambda>j. rx_search True (lit (u ''OK'')) (buffer_after chatter j) = None) [0..<4]"
    by code_simp
  have c: "expired 2 0 (stream [] 2)" by code_simp
  from wait_returns_by_the_deadline [where timeout = 3 and start_time = 0 and env = chatter
      and k = 3 and re_search = "rx_search True" and pattern = "lit (u ''OK'')", OF a]
    wait_returns_by_the_deadline [where timeout = 2 and start_time = 0 and env = "stream []"
      and k = 2 and re_search = "rx_search True" and pattern = "lit (u ''OK'')", OF c] a b c
  show ?thesis by blast
qed

lemma split_word_run:
  "poll_loop (rx_search True) (lit (u ''Community'')) 10 0 split_word 0 []
     = Some (Returned Found (u ''Community Edition''))"
proof -
  have a: "list_all (\<lambda>j. \<not> expired 10 0 (split_word j)
       \<and> \<not> hit (rx_search True) (lit (u ''Community'')) split_word j) [0..<2]" by code_simp
  have b: "\<not> expired 10 0 (split_word 2)" by code_simp
  have c: "hit (rx_search True) (lit (u ''Community'')) split_word 2" by code_simp
  have d: "buffer_after split_word (Suc 2) = u ''Community Edition''" by code_simp
  from a have a': "\<forall>j<2. \<not> expired 10 0 (split_word j)
       \<and> \<not> hit (rx_search True) (lit (u ''Community'')) split_word j"
    by (simp add: list_all_iff)
  from poll_loop_found [OF a' b c] d show ?thesis by simp
qed

lemma two_chunks_run:
  "poll_loop (rx_search True) (lit (u ''xyz'')) 5 0 two_chunks 0 []
     = Some (Returned TimedOut (u ''abcdef''))"
proof -
  have a: "list_all (\<lambda>j. \<not> expired 5 0 (two_chunks j)
      \<and> \<not> hit (rx_search True) (lit (u ''xyz'')) two_chunks j) [0..<5]" by code_simp
  have b: "expired 5 0 (two_chunks 5)" by code_simp
  have d: "buffer_after two_chunks 5 = u ''abcdef''" by code_simp
  from a have a': "\<forall>j<5. \<not> expired 5 0 (two_chunks j)
      \<and> \<not> hit (rx_search True) (lit (u ''xyz'')) two_chunks j"
    by (simp add: list_all_iff)
  from poll_loop_timed_out [OF a' b] d show ?thesis by simp
qed

lemma flood_run:
  "poll_loop (rx_search True) (lit (u ''never'')) 4 0 flood 0 []
     = Some (Returned TimedOut (u ''012345678901234567890123456789''))"
proof -
  have a: "list_all (\<lambda>j. \<not> expired 4 0 (flood j)
      \<and> \<not> hit (rx_search True) (lit (u ''never'')) flood j) [0..<4]" by code_simp
  have b: "expired 4 0 (flood 4)" by code_simp
  have d: "buffer_after flood 4 = u ''012345678901234567890123456789''" by code_simp
  from a have a': "\<forall>j<4. \<not> expired 4 0 (flood j)
      \<and> \<not> hit (rx_search True) (lit (u ''never'')) flood j"
    by (simp add: list_all_iff)
  from poll_loop_timed_out [OF a' b] d show ?thesis by simp
qed

text \<open>
  C10. Whenever the wait returns, by either \<^verbatim>\<open>return\<close>, the value is the accumulated buffer
  and nothing else: the two exits hand back the same value for the same buffer. What the
  caller can learn of the outcome it learns by searching the returned buffer again: after
  the exit inside the loop the pattern matches it; after the exit behind the loop the
  pattern does not match it, provided the buffer is not empty. (An empty buffer is
  returned by the exit behind the loop when nothing was read, and was then never searched.)
\<close>

theorem both_exits_return_the_buffer:
  assumes "poll_loop re_search pattern timeout start_time env 0 [] = Some y"
  shows "\<exists>x n. y = Returned x (buffer_after env n)
           \<and> read_serial_until_pattern re_search start_time env pattern timeout
               = Some (Inr (buffer_after env n))
           \<and> returned (Returned Found (buffer_after env n))
               = returned (Returned TimedOut (buffer_after env n))
           \<and> (x = Found \<longrightarrow> re_search pattern (buffer_after env n) \<noteq> None)
           \<and> (x = TimedOut \<and> buffer_after env n \<noteq> []
                \<longrightarrow> re_search pattern (buffer_after env n) = None)"
proof -
  from poll_loop_returns [OF assms] obtain k where
    quiet: "\<forall>j<k. \<not> expired timeout start_time (env j) \<and> \<not> hit re_search pattern env j"
    and stop: "expired timeout start_time (env k) \<and> y = Returned TimedOut (buffer_after env k)
             \<or> \<not> expired timeout start_time (env k) \<and> hit re_search pattern env k
               \<and> y = Returned Found (buffer_after env (Suc k))"
    by blast
  from stop show ?thesis
  proof
    assume t: "expired timeout start_time (env k) \<and> y = Returned TimedOut (buffer_after env k)"
    from quiet have "buffer_after env k \<noteq> [] \<longrightarrow> re_search pattern (buffer_after env k) = None"
      using quiet_no_match [of k re_search pattern env] by blast
    with t assms show ?thesis
      by (intro exI [of _ TimedOut] exI [of _ k]) (simp add: read_serial_until_pattern_def)
  next
    assume f: "\<not> expired timeout start_time (env k) \<and> hit re_search pattern env k
               \<and> y = Returned Found (buffer_after env (Suc k))"
    then have "re_search pattern (buffer_after env (Suc k)) \<noteq> None" by (simp add: hit_def)
    with f assms show ?thesis
      by (intro exI [of _ Found] exI [of _ "Suc k"]) (simp add: read_serial_until_pattern_def)
  qed
qed

theorem both_exits_return_the_buffer_witness:
  "poll_loop (rx_search True) (lit (u ''Community'')) 10 0 split_word 0 []
     = Some (Returned Found (u ''Community Edition''))
   \<and> read_serial_until_pattern (rx_search True) 0 split_word (lit (u ''Community'')) 10
       = Some (Inr (u ''Community Edition''))
   \<and> rx_search True (lit (u ''Community'')) (u ''Community Edition'') \<noteq> None
   \<and> poll_loop (rx_search True) (lit (u ''xyz'')) 5 0 two_chunks 0 []
       = Some (Returned TimedOut (u ''abcdef''))
   \<and> read_serial_until_pattern (rx_search True) 0 two_chunks (lit (u ''xyz'')) 5
       = Some (Inr (u ''abcdef''))
   \<and> u ''abcdef'' \<noteq> []
   \<and> rx_search True (lit (u ''xyz'')) (u ''abcdef'') = None"
proof -
  have ne: "u ''abcdef'' \<noteq> []" by (simp add: u_def)
  from both_exits_return_the_buffer [OF split_word_run] split_word_run
  have f: "read_serial_until_pattern (rx_search True) 0 split_word (lit (u ''Community'')) 10
       = Some (Inr (u ''Community Edition''))
     \<and> rx_search True (lit (u ''Community'')) (u ''Community Edition'') \<noteq> None"
    by auto
  from both_exits_return_the_buffer [OF two_chunks_run] two_chunks_run ne
  have t: "read_serial_until_pattern (rx_search True) 0 two_chunks (lit (u ''xyz'')) 5
       = Some (Inr (u ''abcdef''))
     \<and> rx_search True (lit (u ''xyz'')) (u ''abcdef'') = None"
    by auto
  from f t ne split_word_run two_chunks_run show ?thesis by simp
qed

text \<open>A pattern that matches the empty string: both exits can return the same value.\<close>

lemma empty_buffer_either_exit:
  "poll_loop (rx_search True) (Opt (Chr 120)) 2 0 noise 0 [] = Some (Returned Found [])
   \<and> poll_loop (rx_search True) (Opt (Chr 120)) 2 0 (stream []) 0 [] = Some (Returned TimedOut [])"
proof -
  have "hit (rx_search True) (Opt (Chr 120)) noise 0" by code_simp
  moreover have "\<not> expired 2 0 (noise 0)" by code_simp
  moreover have "buffer_after noise (Suc 0) = []" by code_simp
  ultimately have "poll_loop (rx_search True) (Opt (Chr 120)) 2 0 noise 0 []
      = Some (Returned Found [])"
    using poll_loop_found [of 0 2 0 noise "rx_search True" "Opt (Chr 120)"] by simp
  moreover have "poll_loop (rx_search True) (Opt (Chr 120)) 2 0 (stream []) 0 []
      = Some (Returned TimedOut [])"
  proof -
    have a: "list_all (\<lambda>j. \<not> expired 2 0 (stream [] j)
        \<and> \<not> hit (rx_search True) (Opt (Chr 120)) (stream []) j) [0..<2]" by code_simp
    have b: "expired 2 0 (stream [] 2)" by code_simp
    have d: "buffer_after (stream []) 2 = []" by code_simp
    from a have a': "\<forall>j<2. \<not> expired 2 0 (stream [] j)
        \<and> \<not> hit (rx_search True) (Opt (Chr 120)) (stream []) j"
      by (simp add: list_all_iff)
    from poll_loop_timed_out [OF a' b] d show ?thesis by simp
  qed
  ultimately show ?thesis by simp
qed

text \<open>
  C2, as amended. The buffer has no maximum size and nothing is ever evicted from it:
  it is only appended to. When the wait returns after \<open>n\<close> polls, the buffer is the
  concatenation of the decoded text of all of them, and at every earlier iteration \<open>m\<close>
  the loop held the concatenation for the first \<open>m\<close> polls, a prefix of the final
  buffer; the length of the buffer is the sum of the lengths read. In the counterexample
  three chunks of ten characters arrive; against a maximum of 16 the buffer holds 30,
  the oldest chunk still at its head.
\<close>

theorem buffer_grows_without_eviction:
  assumes "poll_loop re_search pattern timeout start_time env 0 [] = Some y"
  shows "\<exists>x n. y = Returned x (buffer_after env n)
           \<and> (\<forall>m<n. poll_loop re_search pattern timeout start_time env m (buffer_after env m)
                       = Some y)
           \<and> length (buffer_after env n) = (\<Sum>i<n. length (decoded (pending (env i))))
           \<and> (\<forall>m\<le>n. prefix (buffer_after env m) (buffer_after env n))"
proof -
  from poll_loop_returns [OF assms] obtain k where
    quiet: "\<forall>j<k. \<not> expired timeout start_time (env j) \<and> \<not> hit re_search pattern env j"
    and stop: "expired timeout start_time (env k) \<and> y = Returned TimedOut (buffer_after env k)
             \<or> \<not> expired timeout start_time (env k) \<and> hit re_search pattern env k
               \<and> y = Returned Found (buffer_after env (Suc k))"
    by blast
  have passed: "poll_loop re_search pattern timeout start_time env m (buffer_after env m) = Some y"
    if "m \<le> k" for m
  proof -
    from quiet that
    have "\<forall>j<m. \<not> expired timeout start_time (env j) \<and> \<not> hit re_search pattern env j"
      by simp
    from poll_loop_quiet [OF this] assms show ?thesis by simp
  qed
  from stop obtain x n where y: "y = Returned x (buffer_after env n)" and n: "n \<le> Suc k"
    by auto
  from n passed
  have "\<forall>m<n. poll_loop re_search pattern timeout start_time env m (buffer_after env m) = Some y"
    by simp
  with y show ?thesis
    by (intro exI [of _ x] exI [of _ n]) (simp add: length_buffer_after buffer_after_prefix)
qed

theorem buffer_grows_without_eviction_witness:
  "poll_loop (rx_search True) (lit (u ''never'')) 4 0 flood 0 []
     = Some (Returned TimedOut (u ''012345678901234567890123456789''))
   \<and> (\<exists>x n. Returned TimedOut (u ''012345678901234567890123456789'')
                = Returned x (buffer_after flood n)
           \<and> (\<forall>m<n. poll_loop (rx_search True) (lit (u ''never'')) 4 0 flood m
                        (buffer_after flood m)
                       = Some (Returned TimedOut (u ''012345678901234567890123456789'')))
           \<and> length (buffer_after flood n) = (\<Sum>i<n. length (decoded (pending (flood i))))
           \<and> (\<forall>m\<le>n. prefix (buffer_after flood m) (buffer_after flood n)))"
  using buffer_grows_without_eviction [OF flood_run] flood_run by simp

theorem buffer_capacity_counterexample:
  "read_serial_until_pattern (rx_search True) 0 flood (lit (u ''never'')) 4
     = Some (Inr (u ''012345678901234567890123456789''))
   \<and> length (u ''012345678901234567890123456789'') = 30
   \<and> \<not> length (u ''012345678901234567890123456789'') \<le> 16
   \<and> prefix (decoded (pending (flood 0))) (u ''012345678901234567890123456789'')
   \<and> decoded (pending (flood 0)) = u ''0123456789''"
proof -
  have "decoded (pending (flood 0)) = u ''0123456789''" by code_simp
  then show ?thesis
    using flood_run by (simp add: read_serial_until_pattern_def u_def)
qed

lemma poll_loop_read_step:
  assumes "\<not> expired timeout start_time (env i)" and "pending (env i) \<noteq> []"
  shows "poll_loop re_search pattern timeout start_time env i buffer
       = (if re_search pattern (buffer @ decoded (pending (env i))) \<noteq> None
          then Some (Returned Found (buffer @ decoded (pending (env i))))
          else poll_loop re_search pattern timeout start_time env (Suc i)
                 (buffer @ decoded (pending (env i))))"
  using assms by (subst poll_loop.simps) (simp add: expired_def utf8_ignore_decoded)

section \<open>Claims about decoding\<close>

text \<open>
  C9. Decoding a chunk with \<^verbatim>\<open>errors='ignore'\<close> never raises, whatever the bytes: the
  result is the strict decoding of the chunk with some bytes left out, and the strict
  decoding itself when that exists. The loop never ends in an exception, and an iteration
  that reads a chunk goes on (or returns) with the decoded text appended to the buffer.
\<close>

theorem decode_append_never_raises:
  "utf8_decode Ignore bs = Inr (decoded bs)
   \<and> (\<exists>kept. subseq kept bs \<and> utf8_decode Strict kept = Inr (decoded bs))
   \<and> (\<forall>s. utf8_decode Strict bs = Inr s \<longrightarrow> decoded bs = s)
   \<and> poll_loop re_search pattern timeout start_time env i buffer \<noteq> Some (Raised e)
   \<and> (\<not> expired timeout start_time (env i) \<and> pending (env i) = bs \<and> bs \<noteq> [] \<longrightarrow>
        poll_loop re_search pattern timeout start_time env i buffer
          = (if re_search pattern (buffer @ decoded bs) \<noteq> None
             then Some (Returned Found (buffer @ decoded bs))
             else poll_loop re_search pattern timeout start_time env (Suc i)
                    (buffer @ decoded bs)))"
proof -
  have 1: "utf8_decode Ignore bs = Inr (decoded bs)" by (rule utf8_ignore_decoded)
  from utf8_ignore_subseq [OF 1]
  have 2: "\<exists>kept. subseq kept bs \<and> utf8_decode Strict kept = Inr (decoded bs)" .
  have 3: "\<forall>s. utf8_decode Strict bs = Inr s \<longrightarrow> decoded bs = s"
    using utf8_strict_ignore [of bs] 1 by auto
  have 4: "poll_loop re_search pattern timeout start_time env i buffer \<noteq> Some (Raised e)"
    using poll_loop_never_raises [of re_search pattern timeout start_time env i buffer]
    by auto
  have 5: "\<not> expired timeout start_time (env i) \<and> pending (env i) = bs \<and> bs \<noteq> [] \<longrightarrow>
        poll_loop re_search pattern timeout start_time env i buffer
          = (if re_search pattern (buffer @ decoded bs) \<noteq> None
             then Some (Returned Found (buffer @ decoded bs))
             else poll_loop re_search pattern timeout start_time env (Suc i)
                    (buffer @ decoded bs))"
    using poll_loop_read_step [of timeout start_time env i re_search pattern buffer] by auto
  from 1 2 3 4 5 show ?thesis by blast
qed

theorem decode_append_never_raises_witness:
  "utf8_decode Strict garbled = Inl UnicodeDecodeError
   \<and> utf8_decode Ignore garbled = Inr (u ''OK'' @ [233])
   \<and> utf8_decode Strict clean = Inr (u ''OK'' @ [233])
   \<and> decoded clean = u ''OK'' @ [233]
   \<and> subseq clean garbled
   \<and> \<not> expired 10 0 (garbled_stream 0)
   \<and> pending (garbled_stream 0) = garbled
   \<and> garbled \<noteq> []
   \<and> poll_loop (rx_search True) (lit (u ''OK'')) 10 0 garbled_stream 0 (u ''boot '')
       = Some (Returned Found (u ''boot OK'' @ [233]))"
proof -
  have a: "utf8_decode Strict garbled = Inl UnicodeDecodeError" by code_simp
  have b: "decoded garbled = u ''OK'' @ [233]" by code_simp
  have c: "utf8_decode Strict clean = Inr (u ''OK'' @ [233])" by code_simp
  have d: "subseq clean garbled" by code_simp
  from decode_append_never_raises [of garbled, THEN conjunct1] b
  have e: "utf8_decode Ignore garbled = Inr (u ''OK'' @ [233])" by simp
  from decode_append_never_raises [of clean, THEN conjunct2, THEN conjunct2, THEN conjunct1] c
  have f: "decoded clean = u ''OK'' @ [233]" by blast
  have g: "\<not> expired 10 0 (garbled_stream 0)" by code_simp
  have h: "pending (garbled_stream 0) = garbled" by code_simp
  have i: "garbled \<noteq> []" by code_simp
  have j: "rx_search True (lit (u ''OK'')) (u ''boot '' @ decoded garbled) \<noteq> None"
    by code_simp
  have k: "u ''boot '' @ decoded garbled = u ''boot OK'' @ [233]" by code_simp
  from decode_append_never_raises [where bs = garbled and timeout = 10 and start_time = 0
      and env = garbled_stream and i = 0 and re_search = "rx_search True"
      and pattern = "lit (u ''OK'')" and buffer = "u ''boot ''",
      THEN conjunct2, THEN conjunct2, THEN conjunct2, THEN conjunct2] g h i j k
  have l: "poll_loop (rx_search True) (lit (u ''OK'')) 10 0 garbled_stream 0 (u ''boot '')
       = Some (Returned Found (u ''boot OK'' @ [233]))"
    by simp
  from a c d e f g h i l show ?thesis by simp
qed

lemma statements_ok_iff: "statements ss = Inr () \<longleftrightarrow> (\<forall>s\<in>set ss. s = Inr ())"
  by (induction ss rule: statements.induct) auto

lemma statements_first_raise:
  "\<forall>s\<in>set pre. s = Inr () \<Longrightarrow> statements (pre @ Inl e # post) = Inl e"
  by (induction pre) auto

lemma assertIn_ok: "assertIn m txt = Inr () \<longleftrightarrow> py_in m txt"
  by (simp add: assertIn_def)

lemma assertIn_raise: "\<not> py_in m txt \<Longrightarrow> assertIn m txt = Inl (AssertionError m)"
  by (simp add: assertIn_def)

section \<open>Claims about the assertions of a scenario\<close>

text \<open>
  C5, as amended. The verdict of the boot scenario is the conjunction of its assertions:
  it passes exactly when all five messages are in the log. The assertions run in the
  order of the source and the first one that fails ends the test: the run reports that
  assertion and no other. In the counterexample the test reports the same single failure
  on the empty log, where all five assertions fail, and on a log where only the first
  fails.
\<close>

theorem boot_sequence_stops_at_first_failure:
  "(test_community_boot_sequence boot_log = Inr ()
      \<longleftrightarrow> (\<forall>m\<in>set boot_messages. py_in m boot_log))
   \<and> (\<forall>pre m post. boot_messages = pre @ m # post
          \<and> (\<forall>m'\<in>set pre. py_in m' boot_log) \<and> \<not> py_in m boot_log
        \<longrightarrow> test_community_boot_sequence boot_log = Inl (AssertionError m))"
proof (intro conjI allI impI)
  show "test_community_boot_sequence boot_log = Inr ()
      \<longleftrightarrow> (\<forall>m\<in>set boot_messages. py_in m boot_log)"
    by (simp add: test_community_boot_sequence_def statements_ok_iff assertIn_ok)
next
  fix pre m post
  assume a: "boot_messages = pre @ m # post
          \<and> (\<forall>m'\<in>set pre. py_in m' boot_log) \<and> \<not> py_in m boot_log"
  then have bm: "boot_messages = pre @ m # post" and ok: "\<forall>m'\<in>set pre. py_in m' boot_log"
    and no: "\<not> py_in m boot_log"
    by blast+
  have split: "map (\<lambda>member. assertIn member boot_log) boot_messages
      = map (\<lambda>member. assertIn member boot_log) pre @ Inl (AssertionError m)
          # map (\<lambda>member. assertIn member boot_log) post"
    unfolding bm by (simp add: assertIn_raise [OF no])
  from ok have "\<forall>s\<in>set (map (\<lambda>member. assertIn member boot_log) pre). s = Inr ()"
    by (simp add: assertIn_ok)
  from statements_first_raise [OF this]
  show "test_community_boot_sequence boot_log = Inl (AssertionError m)"
    unfolding test_community_boot_sequence_def split .
qed

theorem boot_sequence_stops_at_first_failure_witness:
  "list_all (\<lambda>m. py_in m complete_boot_log) boot_messages
   \<and> test_community_boot_sequence complete_boot_log = Inr ()
   \<and> boot_messages = take 2 boot_messages @ boot_messages ! 2 # drop 3 boot_messages
   \<and> list_all (\<lambda>m. py_in m partial_boot_log) (take 2 boot_messages)
   \<and> \<not> py_in (boot_messages ! 2) partial_boot_log
   \<and> test_community_boot_sequence partial_boot_log
       = Inl (AssertionError (boot_messages ! 2))"
proof -
  have a: "list_all (\<lambda>m. py_in m complete_boot_log) boot_messages" by code_simp
  have b: "boot_messages = take 2 boot_messages @ boot_messages ! 2 # drop 3 boot_messages"
    by code_simp
  have c: "list_all (\<lambda>m. py_in m partial_boot_log) (take 2 boot_messages)" by code_simp
  have d: "\<not> py_in (boot_messages ! 2) partial_boot_log" by code_simp
  from boot_sequence_stops_at_first_failure [of complete_boot_log, THEN conjunct1] a
  have e: "test_community_boot_sequence complete_boot_log = Inr ()"
    by (simp add: list_all_iff)
  from boot_sequence_stops_at_first_failure [of partial_boot_log, THEN conjunct2,
      THEN spec, THEN spec, THEN spec,
      of "take 2 boot_messages" "boot_messages ! 2" "drop 3 boot_messages"] b c d
  have f: "test_community_boot_sequence partial_boot_log
       = Inl (AssertionError (boot_messages ! 2))"
    by (simp add: list_all_iff)
  from a b c d e f show ?thesis by simp
qed

theorem boot_sequence_reports_one_failure_counterexample:
  "length (filter (\<lambda>m. \<not> py_in m []) boot_messages) = 5
   \<and> test_community_boot_sequence [] = Inl (AssertionError (boot_messages ! 0))
   \<and> length (filter (\<lambda>m. \<not> py_in m later_boot_log) boot_messages) = 1
   \<and> test_community_boot_sequence later_boot_log = Inl (AssertionError (boot_messages ! 0))"
  by code_simp






lemma statements4:
  "statements [assertGreaterEqual t (- 40) mt, assertLessEqual t 80 mt,
               assertGreaterEqual h 0 mh, assertLessEqual h 100 mh]
   = (if \<not> - 40 \<le> t \<or> \<not> t \<le> 80 then Inl (AssertionError mt)
      else if \<not> 0 \<le> h \<or> \<not> h \<le> 100 then Inl (AssertionError mh)
      else Inr ())"
  by (simp add: assertGreaterEqual_def assertLessEqual_def)

text \<open>
  C4, as amended. The sensor test fails when the header of a reading is not in the log.
  With the header present, a log in which the pattern of the readings matches nothing
  passes: the range checks are skipped. When the pattern matches and both groups convert,
  the values are checked inclusively, the temperature against [-40, 80] and the humidity
  against [0, 100], and a value out of range fails the test. The witness has the text of
  the claim, where 23.5 is extracted and passes, and the same text with 150.0, which
  fails; the counterexample is a log with the header and no reading.
\<close>

theorem sensor_reading_checks:
  "(\<not> py_in sensor_header sensor_log \<longrightarrow>
      test_community_sensor_reading search_reading py_float sensor_log
        = Inl (AssertionError sensor_header))
   \<and> (py_in sensor_header sensor_log \<and> search_reading sensor_log = None \<longrightarrow>
      test_community_sensor_reading search_reading py_float sensor_log = Inr ())
   \<and> (py_in sensor_header sensor_log \<and> search_reading sensor_log = Some (t, h)
        \<and> py_float t = Inr temp \<and> py_float h = Inr humidity \<longrightarrow>
      test_community_sensor_reading search_reading py_float sensor_log
        = (if temp < - 40 \<or> 80 < temp then Inl (AssertionError msg_temperature)
           else if humidity < 0 \<or> 100 < humidity then Inl (AssertionError msg_humidity)
           else Inr ()))"
  by (auto simp: test_community_sensor_reading_def assertIn_def statements4)

theorem sensor_reading_checks_witness:
  "py_in sensor_header reading_ok
   \<and> search_reading_ascii reading_ok = Some (u ''23.5'', u ''45.0'')
   \<and> float_of_decimal (u ''23.5'') = Inr (47 / 2)
   \<and> float_of_decimal (u ''45.0'') = Inr 45
   \<and> test_community_sensor_reading search_reading_ascii float_of_decimal reading_ok = Inr ()
   \<and> py_in sensor_header reading_hot
   \<and> search_reading_ascii reading_hot = Some (u ''150.0'', u ''45.0'')
   \<and> float_of_decimal (u ''150.0'') = Inr 150
   \<and> test_community_sensor_reading search_reading_ascii float_of_decimal reading_hot
       = Inl (AssertionError msg_temperature)
   \<and> \<not> py_in sensor_header (u ''T=23.5'')
   \<and> test_community_sensor_reading search_reading_ascii float_of_decimal (u ''T=23.5'')
       = Inl (AssertionError sensor_header)"
proof -
  have a: "py_in sensor_header reading_ok" by code_simp
  have b: "search_reading_ascii reading_ok = Some (u ''23.5'', u ''45.0'')" by code_simp
  have c: "float_of_decimal (u ''23.5'') = Inr (47 / 2)" by code_simp
  have d: "float_of_decimal (u ''45.0'') = Inr 45" by code_simp
  have e: "py_in sensor_header reading_hot" by code_simp
  have f: "search_reading_ascii reading_hot = Some (u ''150.0'', u ''45.0'')" by code_simp
  have g: "float_of_decimal (u ''150.0'') = Inr 150" by code_simp
  have h: "\<not> py_in sensor_header (u ''T=23.5'')" by code_simp
  note inst = sensor_reading_checks [where search_reading = search_reading_ascii
      and py_float = float_of_decimal]
  from inst [where sensor_log = reading_ok and t = "u ''23.5''" and h = "u ''45.0''"
      and temp = "47 / 2" and humidity = 45, THEN conjunct2, THEN conjunct2] a b c d
  have i: "test_community_sensor_reading search_reading_ascii float_of_decimal reading_ok
      = Inr ()" by simp
  from inst [where sensor_log = reading_hot and t = "u ''150.0''" and h = "u ''45.0''"
      and temp = 150 and humidity = 45, THEN conjunct2, THEN conjunct2] e f g d
  have j: "test_community_sensor_reading search_reading_ascii float_of_decimal reading_hot
      = Inl (AssertionError msg_temperature)" by simp
  from inst [where sensor_log = "u ''T=23.5''", THEN conjunct1] h
  have k: "test_community_sensor_reading search_reading_ascii float_of_decimal (u ''T=23.5'')
       = Inl (AssertionError sensor_header)" by simp
  from a b c d e f g h i j k show ?thesis by simp
qed

theorem sensor_reading_no_match_counterexample:
  "py_in sensor_header reading_absent
   \<and> rx_search False (reading_rx ascii_digit) reading_absent = None
   \<and> test_community_sensor_reading search_reading_ascii float_of_decimal reading_absent
       = Inr ()"
  by code_simp

lemma foldl_record_test:
  "foldl record_test r suite =
     r\<lparr>testsRun := testsRun r + length suite,
       failures := failures r @ map fst (filter (\<lambda>t. status_of t = Failure) suite),
       errors := errors r @ map fst (filter (\<lambda>t. status_of t = Error) suite),
       skipped := skipped r @ map fst (filter (\<lambda>t. status_of t = Skipped) suite)\<rparr>"
proof (induction suite arbitrary: r)
  case Nil
  show ?case by simp
next
  case (Cons t suite)
  have step: "foldl record_test r (t # suite) = foldl record_test (record_test r t) suite"
    by simp
  show ?case
    unfolding step Cons.IH by (cases "status_of t") (simp_all add: record_test_def)
qed

lemma runner_run_lists:
  "failures (runner_run suite) = map fst (filter (\<lambda>t. status_of t = Failure) suite)"
  "errors (runner_run suite) = map fst (filter (\<lambda>t. status_of t = Error) suite)"
  "skipped (runner_run suite) = map fst (filter (\<lambda>t. status_of t = Skipped) suite)"
  "testsRun (runner_run suite) = length suite"
  by (simp_all add: runner_run_def foldl_record_test empty_result_def)

lemma run_community_tests_iff:
  "run_community_tests suite
     \<longleftrightarrow> (\<forall>t\<in>set suite. status_of t \<noteq> Skipped \<longrightarrow> status_of t = Success)"
proof -
  have "run_community_tests suite
      \<longleftrightarrow> (\<forall>t\<in>set suite. status_of t \<noteq> Failure) \<and> (\<forall>t\<in>set suite. status_of t \<noteq> Error)"
    by (simp add: run_community_tests_def wasSuccessful_def runner_run_lists filter_empty_conv)
  also have "\<dots> \<longleftrightarrow> (\<forall>t\<in>set suite. status_of t \<noteq> Skipped \<longrightarrow> status_of t = Success)"
  proof -
    have "\<And>st. (st \<noteq> Failure \<and> st \<noteq> Error) = (st \<noteq> Skipped \<longrightarrow> st = Success)"
      by (case_tac st) simp_all
    then show ?thesis by blast
  qed
  finally show ?thesis .
qed

text \<open>The script's own summary is the same whether or not tests were skipped.\<close>

lemma script_summary_without_skipped:
  "script_summary (runner_run suite)
     = script_summary (runner_run (filter (\<lambda>t. status_of t \<noteq> Skipped) suite))"
proof -
  have f: "filter (\<lambda>t. status_of t = Failure) (filter (\<lambda>t. status_of t \<noteq> Skipped) suite)
      = filter (\<lambda>t. status_of t = Failure) suite"
    by (induction suite) auto
  have e: "filter (\<lambda>t. status_of t = Error) (filter (\<lambda>t. status_of t \<noteq> Skipped) suite)
      = filter (\<lambda>t. status_of t = Error) suite"
    by (induction suite) auto
  show ?thesis
    by (simp only: script_summary_def wasSuccessful_def runner_run_lists f e)
qed

section \<open>Claims about the run\<close>

text \<open>
  C8. The exit status is 0 exactly when every test that was not skipped succeeded, and 1
  otherwise. A test whose port cannot be opened is skipped; skipped tests are filed
  apart from failures and errors, and the last line of the runner's report counts them
  under their own heading.
\<close>

theorem exit_status_ignores_skipped:
  "(main_exit suite = 0
      \<longleftrightarrow> (\<forall>t\<in>set suite. status_of t \<noteq> Skipped \<longrightarrow> status_of t = Success))
   \<and> (main_exit suite \<noteq> 0 \<longrightarrow> main_exit suite = 1)
   \<and> status_of (name, False, body) = Skipped
   \<and> skipped (runner_run suite) = map fst (filter (\<lambda>t. status_of t = Skipped) suite)
   \<and> failures (runner_run suite) = map fst (filter (\<lambda>t. status_of t = Failure) suite)
   \<and> errors (runner_run suite) = map fst (filter (\<lambda>t. status_of t = Error) suite)
   \<and> map_of (runner_infos (runner_run suite)) ''skipped''
       = (if \<exists>t\<in>set suite. status_of t = Skipped
          then Some (length (filter (\<lambda>t. status_of t = Skipped) suite)) else None)"
proof -
  have 1: "main_exit suite = 0
      \<longleftrightarrow> (\<forall>t\<in>set suite. status_of t \<noteq> Skipped \<longrightarrow> status_of t = Success)"
    by (simp add: main_exit_def run_community_tests_iff)
  have 2: "main_exit suite \<noteq> 0 \<longrightarrow> main_exit suite = 1"
    by (simp add: main_exit_def)
  have 3: "status_of (name, False, body) = Skipped"
    by (simp add: status_of_def run_test_def setUp_def)
  have 4: "map_of (runner_infos (runner_run suite)) ''skipped''
       = (if \<exists>t\<in>set suite. status_of t = Skipped
          then Some (length (filter (\<lambda>t. status_of t = Skipped) suite)) else None)"
    by (auto simp: runner_infos_def runner_run_lists filter_empty_conv)
  from 1 2 3 4 show ?thesis by (simp add: runner_run_lists)
qed

theorem exit_status_ignores_skipped_witness:
  "list_all (\<lambda>t. status_of t = Skipped) suite_no_device
   \<and> main_exit suite_no_device = 0
   \<and> length (skipped (runner_run suite_no_device)) = 8
   \<and> failures (runner_run suite_no_device) = []
   \<and> errors (runner_run suite_no_device) = []
   \<and> runner_infos (runner_run suite_no_device) = [(''skipped'', 8)]
   \<and> map status_of suite_with_failure = [Failure, Skipped, Success]
   \<and> main_exit suite_with_failure = 1
   \<and> failures (runner_run suite_with_failure) = [''test_community_boot_sequence'']
   \<and> skipped (runner_run suite_with_failure) = [''test_community_crypto_basic'']
   \<and> runner_infos (runner_run suite_with_failure) = [(''failures'', 1), (''skipped'', 1)]"
proof -
  have a: "list_all (\<lambda>t. status_of t = Skipped) suite_no_device" by code_simp
  have b: "map status_of suite_with_failure = [Failure, Skipped, Success]" by code_simp
  have c: "length (map fst (filter (\<lambda>t. status_of t = Skipped) suite_no_device)) = 8"
    by code_simp
  have d: "map fst (filter (\<lambda>t. status_of t = Failure) suite_no_device) = []" by code_simp
  have d': "map fst (filter (\<lambda>t. status_of t = Error) suite_no_device) = []" by code_simp
  have e: "map fst (filter (\<lambda>t. status_of t = Failure) suite_with_failure)
      = [''test_community_boot_sequence'']" by code_simp
  have f: "map fst (filter (\<lambda>t. status_of t = Skipped) suite_with_failure)
      = [''test_community_crypto_basic'']" by code_simp
  have g: "runner_infos (runner_run suite_no_device) = [(''skipped'', 8)]" by code_simp
  have h: "runner_infos (runner_run suite_with_failure) = [(''failures'', 1), (''skipped'', 1)]"
    by code_simp
  have b': "\<not> list_all (\<lambda>t. status_of t \<noteq> Skipped \<longrightarrow> status_of t = Success) suite_with_failure"
    by code_simp
  note s = exit_status_ignores_skipped [of suite_no_device]
  note t = exit_status_ignores_skipped [of suite_with_failure]
  from s a have i: "main_exit suite_no_device = 0" by (auto simp: list_all_iff)
  from t b' have j: "main_exit suite_with_failure = 1" by (auto simp: list_all_iff)
  from s c d d' have k: "length (skipped (runner_run suite_no_device)) = 8"
    "failures (runner_run suite_no_device) = []" "errors (runner_run suite_no_device) = []"
    by simp_all
  from t e f have l: "failures (runner_run suite_with_failure) = [''test_community_boot_sequence'']"
    "skipped (runner_run suite_with_failure) = [''test_community_crypto_basic'']" by simp_all
  from a b g h i j k l show ?thesis by simp
qed

end
